theory Spec2Isabelle
  imports Complex_Main "HOL-Library.AList"
begin

section \<open>Text primitives\<close>

text \<open>
  A Python \<open>str\<close> is a sequence of code points. The model takes texts over the
  code points U+0000 .. U+00FF: an Isabelle \<open>char\<close> is read as the Latin-1 code
  point of the same number. This repertoire holds every non-ASCII character the
  source mentions (micro sign B5, superscript three B3, registered sign AE,
  copyright sign A9).
\<close>

definition code :: "char \<Rightarrow> nat" where
  "code c = of_char c"

definition is_digit :: "char \<Rightarrow> bool" where
  \<comment> \<open>\<open>\d\<close>: the decimal digits (category Nd) below U+0100\<close>
  "is_digit c = (48 \<le> code c \<and> code c \<le> 57)"

definition is_space :: "char \<Rightarrow> bool" where
  \<comment> \<open>\<open>\s\<close> and \<open>str.strip()\<close>: the whitespace code points below U+0100\<close>
  "is_space c = (code c \<in> {9, 10, 11, 12, 13, 28, 29, 30, 31, 32, 133, 160})"

definition is_upper :: "char \<Rightarrow> bool" where
  "is_upper c = ((65 \<le> code c \<and> code c \<le> 90) \<or> (192 \<le> code c \<and> code c \<le> 222 \<and> code c \<noteq> 215))"

definition is_word :: "char \<Rightarrow> bool" where
  \<comment> \<open>\<open>\w\<close>: alphanumeric code points below U+0100, and the underscore\<close>
  "is_word c = ((48 \<le> code c \<and> code c \<le> 57) \<or> (65 \<le> code c \<and> code c \<le> 90) \<or> (97 \<le> code c \<and> code c \<le> 122)
      \<or> code c = 95 \<or> code c \<in> {170, 178, 179, 181, 185, 186, 188, 189, 190}
      \<or> (192 \<le> code c \<and> code c \<noteq> 215 \<and> code c \<noteq> 247))"

definition lower_char :: "char \<Rightarrow> char" where
  "lower_char c = (if is_upper c then char_of (code c + 32) else c)"

definition py_lower :: "string \<Rightarrow> string" where
  "py_lower s = map lower_char s"

definition py_strip :: "string \<Rightarrow> string" where
  "py_strip s = rev (dropWhile is_space (rev (dropWhile is_space s)))"

definition remove_commas :: "string \<Rightarrow> string" where
  \<comment> \<open>\<open>text.replace(",", "")\<close>\<close>
  "remove_commas s = filter (\<lambda>c. c \<noteq> CHR '','') s"

fun starts_with :: "string \<Rightarrow> string \<Rightarrow> bool" where
  "starts_with [] s = True"
| "starts_with (a # as) [] = False"
| "starts_with (a # as) (c # cs) = (a = c \<and> starts_with as cs)"

fun contains :: "string \<Rightarrow> string \<Rightarrow> bool" where
  \<comment> \<open>\<open>sub in s\<close>\<close>
  "contains sub [] = (sub = [])"
| "contains sub (c # cs) = (starts_with sub (c # cs) \<or> contains sub cs)"

fun split_on :: "char \<Rightarrow> string \<Rightarrow> string list" where
  \<comment> \<open>\<open>s.split(sep)\<close> for a one-character separator\<close>
  "split_on sep [] = [[]]"
| "split_on sep (c # cs) =
     (if c = sep then [] # split_on sep cs
      else (case split_on sep cs of [] \<Rightarrow> [[c]] | p # ps \<Rightarrow> (c # p) # ps))"

fun dec :: "string \<Rightarrow> nat \<Rightarrow> nat" where
  \<comment> \<open>the number written by a digit string, after the digits read so far\<close>
  "dec [] acc = acc"
| "dec (c # cs) acc = dec cs (10 * acc + (code c - 48))"

datatype py_error = ValueError | IndexError | TypeError

definition py_int :: "string \<Rightarrow> py_error + int" where
  \<comment> \<open>\<open>int(s)\<close> on the strings a capture group can hold: a non-empty run of digits
      is read in base ten, anything else raises ValueError\<close>
  "py_int s = (if s \<noteq> [] \<and> list_all is_digit s then Inr (int (dec s 0)) else Inl ValueError)"

definition py_float :: "string \<Rightarrow> py_error + rat" where
  \<comment> \<open>\<open>float(s)\<close> on plain decimal numerals \<open>12\<close>, \<open>12.\<close>, \<open>12.5\<close>, \<open>.5\<close>, read as the
      exact rational; anything else raises ValueError\<close>
  "py_float s =
     (let ip = takeWhile is_digit s; rest = dropWhile is_digit s
      in case rest of
           [] \<Rightarrow> (if ip = [] then Inl ValueError else Inr (of_nat (dec ip 0)))
         | d # fp \<Rightarrow>
             (if d = CHR ''.'' \<and> list_all is_digit fp \<and> (ip \<noteq> [] \<or> fp \<noteq> [])
              then Inr (of_nat (dec (ip @ fp) 0) / 10 ^ length fp)
              else Inl ValueError))"

section \<open>Regular expressions as the source's patterns use them\<close>

text \<open>
  Every pattern of the source is compiled with \<open>re.IGNORECASE\<close>, so a literal
  matches a character when both have the same lower-case form. Repetition is
  applied to single-character classes only, except for the optional group
  \<open>(?:cells\s*)?\<close>.
\<close>

datatype citem = C char | D | S

datatype cclass = Pos "citem list" | Neg "citem list" | Dot

fun imatch :: "citem \<Rightarrow> char \<Rightarrow> bool" where
  "imatch (C a) c = (lower_char c = lower_char a)"
| "imatch D c = is_digit c"
| "imatch S c = is_space c"

fun cmatch :: "cclass \<Rightarrow> char \<Rightarrow> bool" where
  "cmatch (Pos is) c = list_ex (\<lambda>i. imatch i c) is"
| "cmatch (Neg is) c = (\<not> list_ex (\<lambda>i. imatch i c) is)"
| "cmatch Dot c = (c \<noteq> CHR 0x0A)"

datatype regex =
    Eps
  | Chr cclass
  | Rep bool cclass nat "nat option"
  | Seq regex regex
  | Alt regex regex
  | Opt regex
  | Grp nat regex
  | Ahead regex
  | WordB
  | Bol
  | Eol

text \<open>
  A matcher state is the character before the current position (None at the
  start of the text), the text from the current position on, and the groups
  captured so far (latest first).
\<close>

type_synonym mstate = "char option \<times> string \<times> (nat \<times> string) list"

definition advance :: "mstate \<Rightarrow> nat \<Rightarrow> mstate" where
  "advance st k = (case st of (p, r, gs) \<Rightarrow>
     (if k = 0 then p else Some (r ! (k - 1)), drop k r, gs))"

definition at_boundary :: "char option \<Rightarrow> string \<Rightarrow> bool" where
  "at_boundary p r =
     ((case p of None \<Rightarrow> False | Some c \<Rightarrow> is_word c) \<noteq> (case r of [] \<Rightarrow> False | c # _ \<Rightarrow> is_word c))"

text \<open>
  \<open>ms r st\<close> lists the states in which a match of \<open>r\<close> started at \<open>st\<close> can
  end, in the order in which a backtracking matcher tries them: the head is
  the match that \<open>re\<close> reports.
\<close>

fun ms :: "regex \<Rightarrow> mstate \<Rightarrow> mstate list" where
  "ms Eps st = [st]"
| "ms (Chr c) (p, r, gs) =
     (case r of [] \<Rightarrow> [] | x # xs \<Rightarrow> (if cmatch c x then [(Some x, xs, gs)] else []))"
| "ms (Rep greedy c lo hi) (p, r, gs) =
     (let n = length (takeWhile (cmatch c) r);
          m = (case hi of None \<Rightarrow> n | Some h \<Rightarrow> min h n);
          ks = (if greedy then rev [lo ..< Suc m] else [lo ..< Suc m])
      in map (advance (p, r, gs)) ks)"
| "ms (Seq a b) st = concat (map (ms b) (ms a st))"
| "ms (Alt a b) st = ms a st @ ms b st"
| "ms (Opt a) st = ms a st @ [st]"
| "ms (Grp i a) (p, r, gs) =
     map (\<lambda>(p', r', gs'). (p', r', (i, take (length r - length r') r) # gs')) (ms a (p, r, gs))"
| "ms (Ahead a) st = (if ms a st = [] then [] else [st])"
| "ms WordB (p, r, gs) = (if at_boundary p r then [(p, r, gs)] else [])"
| "ms Bol (p, r, gs) = (if p = None then [(p, r, gs)] else [])"
| "ms Eol (p, r, gs) = (if r = [] \<or> r = [CHR 0x0A] then [(p, r, gs)] else [])"

record rmatch =
  whole :: string
  groups :: "(nat \<times> string) list"
  after_prev :: "char option"
  after :: string

definition mk_match :: "string \<Rightarrow> mstate \<Rightarrow> rmatch" where
  "mk_match r st = (case st of (p', r', gs) \<Rightarrow>
     \<lparr>whole = take (length r - length r') r, groups = gs, after_prev = p', after = r'\<rparr>)"

fun search :: "regex \<Rightarrow> char option \<Rightarrow> string \<Rightarrow> rmatch option" where
  \<comment> \<open>\<open>re.search\<close>: the first position, from the left, at which the pattern matches\<close>
  "search re p [] = (case ms re (p, [], []) of [] \<Rightarrow> None | st # _ \<Rightarrow> Some (mk_match [] st))"
| "search re p (c # cs) =
     (case ms re (p, c # cs, []) of
        [] \<Rightarrow> search re (Some c) cs
      | st # _ \<Rightarrow> Some (mk_match (c # cs) st))"

function finditer :: "regex \<Rightarrow> char option \<Rightarrow> string \<Rightarrow> rmatch list" where
  \<comment> \<open>\<open>re.finditer\<close>: successive non-overlapping matches. After an empty match the
      scan moves on by one character (no pattern of the source matches the empty string).\<close>
  "finditer re p s =
     (case search re p s of
        None \<Rightarrow> []
      | Some m \<Rightarrow> m #
          (if length (after m) < length s then finditer re (after_prev m) (after m)
           else (case s of [] \<Rightarrow> [] | c # cs \<Rightarrow> finditer re (Some c) cs)))"
  by pat_completeness auto
termination
  by (relation "measure (\<lambda>(re, p, s). length s)") auto

declare finditer.simps [simp del]

definition group :: "rmatch \<Rightarrow> nat \<Rightarrow> string option" where
  \<comment> \<open>\<open>match.group(i)\<close> for \<open>i > 0\<close>; None when the group took no part in the match\<close>
  "group m i = map_of (groups m) i"

definition lit :: "string \<Rightarrow> regex" where
  "lit s = foldr (\<lambda>c r. Seq (Chr (Pos [C c])) r) s Eps"

definition seqs :: "regex list \<Rightarrow> regex" where
  "seqs rs = foldr Seq rs Eps"

abbreviation star :: "cclass \<Rightarrow> regex" where
  "star c \<equiv> Rep True c 0 None"

abbreviation plus :: "cclass \<Rightarrow> regex" where
  "plus c \<equiv> Rep True c 1 None"

abbreviation opt_c :: "cclass \<Rightarrow> regex" where
  "opt_c c \<equiv> Rep True c 0 (Some 1)"

abbreviation ch :: "char \<Rightarrow> regex" where
  "ch c \<equiv> Chr (Pos [C c])"

section \<open>extractor.py: parse_value_with_unit\<close>

definition number :: regex where
  \<comment> \<open>\<open>(\d+\.?\d*)\<close>\<close>
  "number = Grp 1 (seqs [plus (Pos [D]), opt_c (Pos [C CHR ''.'']), star (Pos [D])])"

definition ws :: regex where
  \<comment> \<open>\<open>\s*\<close>\<close>
  "ws = star (Pos [S])"

definition per_L :: regex where
  \<comment> \<open>\<open>\s*/\s*L\<close>\<close>
  "per_L = seqs [ws, ch CHR ''/'', ws, ch CHR ''L'']"

definition per_uL :: regex where
  \<comment> \<open>\<open>/\s*[.u]L\<close>, the class of the micro sign (B5) and u\<close>
  "per_uL = seqs [ch CHR ''/'', ws, Chr (Pos [C (CHR 0xB5), C CHR ''u'']), ch CHR ''L'']"

definition value_patterns :: "regex list" where
  \<open>value_patterns =
    [ \<comment> \<open>\<open>(\d+\.?\d*)\s*x[IO0S]+\^?\s*/\s*L\<close>\<close>
      seqs [number, ws, ch CHR ''x'', plus (Pos [C CHR ''I'', C CHR ''O'', C CHR ''0'', C CHR ''S'']),
            opt_c (Pos [C CHR ''^'']), per_L],
      \<comment> \<open>\<open>(\d+\.?\d*)\s*x\s*10[..^3]\s*/\s*L\<close>, the class listing superscript three (B3) twice\<close>
      seqs [number, ws, ch CHR ''x'', ws, lit ''10'',
            Chr (Pos [C (CHR 0xB3), C (CHR 0xB3), C CHR ''^'', C CHR ''3'']), per_L],
      \<comment> \<open>\<open>(\d+\.?\d*)\s*x\s*10\^?\s*3\s*/\s*L\<close>\<close>
      seqs [number, ws, ch CHR ''x'', ws, lit ''10'', opt_c (Pos [C CHR ''^'']), ws, ch CHR ''3'', per_L],
      \<comment> \<open>\<open>(\d+\.?\d*)\s*x\s*10[..]\s*/\s*L\<close>, the class of the registered (AE) and copyright (A9) signs\<close>
      seqs [number, ws, ch CHR ''x'', ws, lit ''10'', Chr (Pos [C (CHR 0xAE), C (CHR 0xA9)]), per_L],
      \<comment> \<open>\<open>(\d+\.?\d*)\s*(?:cells\s*)?/\s*[.u]L\<close>, the class of the micro sign (B5) and u\<close>
      seqs [number, ws, Opt (Seq (lit ''cells'') ws), per_uL],
      \<comment> \<open>\<open>(\d+\.?\d*)\s*K\s*/\s*[.u]L\<close>\<close>
      seqs [number, ws, ch CHR ''K'', ws, per_uL],
      \<comment> \<open>\<open>^(\d+\.?\d*)$\<close>\<close>
      seqs [Bol, number, Eol],
      \<comment> \<open>\<open>(\d+\.?\d*)\s*\([^\)]+\)\<close>\<close>
      seqs [number, ws, ch CHR ''('', plus (Neg [C CHR '')'']), ch CHR '')'']
    ]\<close>

definition x10_markers :: "string list" where
  "x10_markers = [''x10'', ''x 10'', ''xio'', ''xios'', ''x io'', [CHR 0xAE], [CHR 0xA9]]"

definition unit_x10 :: string where
  "unit_x10 = ''x10'' @ [CHR 0xB3] @ ''/L''"

definition unit_K :: string where
  "unit_K = ''K/'' @ [CHR 0xB5] @ ''L''"

definition unit_cells :: string where
  "unit_cells = ''cells/'' @ [CHR 0xB5] @ ''L''"

definition unit_assumed :: string where
  "unit_assumed = ''x10'' @ [CHR 0xB3] @ ''/L (assumed)''"

definition resolve_unit :: "string \<Rightarrow> rat \<Rightarrow> rat option \<times> string option" where
  \<comment> \<open>the \<open>if\<close>/\<open>elif\<close> chain on the whole cleaned text\<close>
  "resolve_unit text v =
     (let low = py_lower text in
      if list_ex (\<lambda>mk. contains mk low) x10_markers then (Some (v * 1000), Some unit_x10)
      else if contains ''k/'' low then (Some (v * 1000), Some unit_K)
      else if contains (''/'' @ [CHR 0xB5] @ ''l'') low \<or> contains ''/ul'' low then (Some v, Some unit_cells)
      else (Some (v * 1000), Some unit_assumed))"

definition float_group :: "rmatch \<Rightarrow> nat \<Rightarrow> py_error + rat" where
  \<comment> \<open>\<open>float(match.group(i))\<close>: a group that took no part is None, and \<open>float(None)\<close>
      raises TypeError\<close>
  "float_group m i = (case group m i of None \<Rightarrow> Inl TypeError | Some g \<Rightarrow> py_float g)"

fun try_patterns :: "regex list \<Rightarrow> string \<Rightarrow> py_error + (rat option \<times> string option)" where
  "try_patterns [] text = Inr (None, None)"
| "try_patterns (pat # pats) text =
     (case search pat None text of
        None \<Rightarrow> try_patterns pats text
      | Some m \<Rightarrow>
          (case float_group m 1 of
             Inl e \<Rightarrow> (if e = ValueError then try_patterns pats text else Inl e)
           | Inr v \<Rightarrow> Inr (resolve_unit text v)))"

definition clean :: "string \<Rightarrow> string" where
  \<comment> \<open>\<open>text.strip().replace(",", "")\<close>\<close>
  "clean text = remove_commas (py_strip text)"

definition parse_value_with_unit :: "string \<Rightarrow> py_error + (rat option \<times> string option)" where
  "parse_value_with_unit text = try_patterns value_patterns (clean text)"

section \<open>Keeping the best candidate\<close>

text \<open>
  Every extractor scans its candidates in a fixed order and keeps one, by
  \<open>if confidence > best_confidence: best_confidence = confidence; best_match = ...\<close>.
  The loop state is the pair \<open>(best_match, best_confidence)\<close>, starting at
  \<open>(None, 0)\<close>.
\<close>

record 'v found =
  value' :: "'v option"
  confidence :: int
  raw_text :: string

type_synonym 'c best = "'c option \<times> int"

definition keep_best :: "('c \<Rightarrow> int) \<Rightarrow> 'c \<Rightarrow> 'c best \<Rightarrow> 'c best" where
  "keep_best conf c st = (case st of (best_match, best_confidence) \<Rightarrow>
     (if conf c > best_confidence then (Some c, conf c) else (best_match, best_confidence)))"

text \<open>
  \<open>scan f conf items st\<close> runs the loop body on each item in turn. The body
  \<open>f\<close> either raises (\<open>Inl\<close>, which ends the loop and leaves the function),
  skips the item (\<open>Inr None\<close>: a \<open>continue\<close>, a failed test, a caught exception)
  or offers a candidate.
\<close>

fun scan :: "('a \<Rightarrow> py_error + 'c option) \<Rightarrow> ('c \<Rightarrow> int) \<Rightarrow> 'a list \<Rightarrow> 'c best \<Rightarrow> py_error + 'c best" where
  "scan f conf [] st = Inr st"
| "scan f conf (x # xs) st =
     (case f x of
        Inl e \<Rightarrow> Inl e
      | Inr None \<Rightarrow> scan f conf xs st
      | Inr (Some c) \<Rightarrow> scan f conf xs (keep_best conf c st))"

definition best_or :: "'c \<Rightarrow> py_error + 'c best \<Rightarrow> py_error + 'c" where
  \<comment> \<open>\<open>return best_match or {...}\<close>\<close>
  "best_or dflt res = (case res of Inl e \<Rightarrow> Inl e | Inr (best_match, _) \<Rightarrow>
     Inr (case best_match of None \<Rightarrow> dflt | Some m \<Rightarrow> m))"

section \<open>extractor.py: find_field_value\<close>

record field_result = "rat found" +
  unit :: "string option"
  matched_variation :: string
  reference_range :: "(rat \<times> rat) option"

definition no_field :: field_result where
  "no_field = \<lparr>value' = None, confidence = 0, raw_text = [], unit = None,
     matched_variation = [], reference_range = None\<rparr>"

text \<open>
  \<open>fuzz.partial_ratio\<close> belongs to the fuzzywuzzy package, which is not part of
  the repository: it is the parameter \<open>ratio\<close>.
\<close>

definition field_candidate :: "(string \<Rightarrow> string \<Rightarrow> int) \<Rightarrow> string \<times> string \<Rightarrow> py_error + field_result option" where
  \<comment> \<open>the body of the inner loop, for one stripped non-empty line and one variation\<close>
  "field_candidate ratio lv = (case lv of (line, variation) \<Rightarrow>
     (let r = ratio (py_lower variation) (py_lower line) in
      if r > 70 then
        (case parse_value_with_unit line of
           Inl e \<Rightarrow> Inl e
         | Inr (None, u) \<Rightarrow> Inr None
         | Inr (Some v, u) \<Rightarrow>
             Inr (Some \<lparr>value' = Some v, confidence = min r 95, raw_text = line, unit = u,
                        matched_variation = variation, reference_range = None\<rparr>))
      else Inr None))"

definition field_items :: "string \<Rightarrow> string list \<Rightarrow> (string \<times> string) list" where
  \<comment> \<open>the (line, variation) pairs in the order of the two nested loops; blank lines are skipped\<close>
  "field_items text field_variations =
     concat (map (\<lambda>line. let l = py_strip line in
                   if l = [] then [] else map (\<lambda>variation. (l, variation)) field_variations)
                 (split_on (CHR 0x0A) text))"

definition find_field_value :: "(string \<Rightarrow> string \<Rightarrow> int) \<Rightarrow> string \<Rightarrow> string \<Rightarrow> string list \<Rightarrow> py_error + field_result" where
  "find_field_value ratio text field_name field_variations =
     best_or no_field (scan (field_candidate ratio) confidence (field_items text field_variations) (None, 0))"

section \<open>constants.py: FIELD_MAPPINGS\<close>

definition FIELD_MAPPINGS :: "(string \<times> string list) list" where
  "FIELD_MAPPINGS =
    [(''neutrophils'', [''neutrophils'', ''neutrophil'', ''segs'', ''segmented neutrophils'',
                        ''pmn'', ''polymorphonuclear'', ''poly'']),
     (''lymphocytes'', [''lymphocytes'', ''lymphocyte'', ''lymphs'', ''lympho'']),
     (''platelets'', [''platelets'', ''platelet'', ''plt'', ''thrombocytes'']),
     (''monocytes'', [''monocytes'', ''monocyte'', ''monos'', ''mono''])]"

section \<open>extractor.py: extract_reference_ranges\<close>

definition range_pattern :: regex where
  \<comment> \<open>\<open>\((\d+\.?\d*)\s*-\s*(\d+\.?\d*)\)\<close>\<close>
  "range_pattern = seqs [ch CHR ''('',
     Grp 1 (seqs [plus (Pos [D]), opt_c (Pos [C CHR ''.'']), star (Pos [D])]),
     ws, ch CHR ''-'', ws,
     Grp 2 (seqs [plus (Pos [D]), opt_c (Pos [C CHR ''.'']), star (Pos [D])]),
     ch CHR '')'']"

definition variation_pattern :: "string \<Rightarrow> regex" where
  \<comment> \<open>\<open>re.escape(variation)\<close>, then \<open>.*?\<close>, then the range pattern\<close>
  "variation_pattern variation = seqs [lit variation, Rep False Dot 0 None, range_pattern]"

definition range_of_match :: "rmatch \<Rightarrow> py_error + (rat \<times> rat)" where
  \<comment> \<open>the body of the \<open>try\<close>\<close>
  "range_of_match m =
     (case float_group m 1 of Inl e \<Rightarrow> Inl e | Inr min_val \<Rightarrow>
      (case float_group m 2 of Inl e \<Rightarrow> Inl e | Inr max_val \<Rightarrow>
       (if contains ''x10'' (py_lower (whole m)) then Inr (min_val * 1000, max_val * 1000)
        else Inr (min_val, max_val))))"

fun first_range :: "rmatch list \<Rightarrow> py_error + (rat \<times> rat) option" where
  \<comment> \<open>\<open>for match in matches\<close>: stops (\<open>break\<close>) at the first match whose two numbers
      parse; a ValueError moves on to the next match\<close>
  "first_range [] = Inr None"
| "first_range (m # ms') =
     (case range_of_match m of
        Inl e \<Rightarrow> (if e = ValueError then first_range ms' else Inl e)
      | Inr rg \<Rightarrow> Inr (Some rg))"

fun ranges_of_variations :: "string \<Rightarrow> string \<Rightarrow> string list \<Rightarrow> (string \<times> rat \<times> rat) list
      \<Rightarrow> py_error + (string \<times> rat \<times> rat) list" where
  \<comment> \<open>\<open>for variation in variations\<close>: the \<open>break\<close> of the match loop leaves this loop
      running, so each variation with a valid match stores its range\<close>
  "ranges_of_variations text field_name [] reference_ranges = Inr reference_ranges"
| "ranges_of_variations text field_name (variation # variations) reference_ranges =
     (case first_range (finditer (variation_pattern variation) None text) of
        Inl e \<Rightarrow> Inl e
      | Inr None \<Rightarrow> ranges_of_variations text field_name variations reference_ranges
      | Inr (Some rg) \<Rightarrow>
          ranges_of_variations text field_name variations (AList.update field_name rg reference_ranges))"

fun ranges_of_fields :: "string \<Rightarrow> (string \<times> string list) list \<Rightarrow> (string \<times> rat \<times> rat) list
      \<Rightarrow> py_error + (string \<times> rat \<times> rat) list" where
  "ranges_of_fields text [] reference_ranges = Inr reference_ranges"
| "ranges_of_fields text ((field_name, variations) # more_fields) reference_ranges =
     (case ranges_of_variations text field_name variations reference_ranges of
        Inl e \<Rightarrow> Inl e
      | Inr reference_ranges' \<Rightarrow> ranges_of_fields text more_fields reference_ranges')"

definition extract_reference_ranges :: "string \<Rightarrow> py_error + (string \<times> rat \<times> rat) list" where
  "extract_reference_ranges text = ranges_of_fields text FIELD_MAPPINGS []"

section \<open>extractor.py: extract_cbc_values\<close>

fun values_of_fields :: "(string \<Rightarrow> string \<Rightarrow> int) \<Rightarrow> string \<Rightarrow> (string \<times> string list) list
      \<Rightarrow> (string \<times> field_result) list \<Rightarrow> py_error + (string \<times> field_result) list" where
  "values_of_fields ratio text [] extracted_values = Inr extracted_values"
| "values_of_fields ratio text ((field_name, variations) # more_fields) extracted_values =
     (case find_field_value ratio text field_name variations of
        Inl e \<Rightarrow> Inl e
      | Inr result \<Rightarrow>
          values_of_fields ratio text more_fields
            (if value' result \<noteq> None then AList.update field_name result extracted_values
             else extracted_values))"

fun attach_ranges :: "(string \<times> rat \<times> rat) list \<Rightarrow> (string \<times> field_result) list \<Rightarrow> (string \<times> field_result) list" where
  "attach_ranges [] extracted_values = extracted_values"
| "attach_ranges ((field_name, ranges) # rest) extracted_values =
     attach_ranges rest
       (case map_of extracted_values field_name of
          None \<Rightarrow> extracted_values
        | Some result \<Rightarrow>
            AList.update field_name (result\<lparr>reference_range := Some ranges\<rparr>) extracted_values)"

definition extract_cbc_values :: "(string \<Rightarrow> string \<Rightarrow> int) \<Rightarrow> string \<Rightarrow> py_error + (string \<times> field_result) list" where
  "extract_cbc_values ratio text =
     (case values_of_fields ratio text FIELD_MAPPINGS [] of
        Inl e \<Rightarrow> Inl e
      | Inr extracted_values \<Rightarrow>
          (case extract_reference_ranges text of
             Inl e \<Rightarrow> Inl e
           | Inr reference_ranges \<Rightarrow> Inr (attach_ranges reference_ranges extracted_values)))"

section \<open>extractor.py: validate_extraction_quality\<close>

record quality_report =
  overall_quality :: string
  average_confidence :: rat
  required_fields_found :: nat
  total_fields_found :: nat
  quality_issues :: "string list"
  manual_review_recommended :: bool

definition required_fields :: "string list" where
  "required_fields = [''neutrophils'', ''lymphocytes'', ''platelets'']"

fun join :: "string \<Rightarrow> string list \<Rightarrow> string" where
  \<comment> \<open>\<open>sep.join(xs)\<close>\<close>
  "join sep [] = []"
| "join sep [x] = x"
| "join sep (x # y # ys) = x @ sep @ join sep (y # ys)"

definition validate_extraction_quality :: "(string \<times> field_result) list \<Rightarrow> quality_report" where
  "validate_extraction_quality extracted_values =
     (let found_required = length (filter (\<lambda>field. field \<in> set (map fst extracted_values)) required_fields);
          confidences = map (\<lambda>(field, data). confidence data) extracted_values;
          avg_confidence = (if confidences \<noteq> [] then of_int (sum_list confidences) / of_nat (length confidences) else 0);
          missing = filter (\<lambda>field. field \<notin> set (map fst extracted_values)) required_fields;
          low_confidence_fields = map fst (filter (\<lambda>(field, data). confidence data < 70) extracted_values);
          quality_issues =
            (if found_required < length required_fields
             then [''Missing required fields: '' @ join '', '' missing] else []) @
            (if low_confidence_fields \<noteq> []
             then [''Low confidence fields: '' @ join '', '' low_confidence_fields] else [])
      in \<lparr>overall_quality =
            (if avg_confidence > 80 \<and> found_required = length required_fields then ''high''
             else if avg_confidence > 60 \<and> found_required \<ge> 2 then ''medium'' else ''low''),
          average_confidence = avg_confidence,
          required_fields_found = found_required,
          total_fields_found = length extracted_values,
          quality_issues = quality_issues,
          manual_review_recommended = (avg_confidence < 70 \<or> found_required < length required_fields)\<rparr>)"

section \<open>demographic_extractor.py\<close>

record 'v demographic_field = "'v found" +
  pattern_used :: "regex option"

text \<open>
  \<open>pattern_used\<close> holds the rule's pattern; None stands for the empty string of
  the result that reports nothing found.
\<close>

definition not_found :: "'v demographic_field" where
  "not_found = \<lparr>value' = None, confidence = 0, raw_text = [], pattern_used = None\<rparr>"

definition pattern_items :: "(regex \<times> int) list \<Rightarrow> string \<Rightarrow> (regex \<times> int \<times> rmatch) list" where
  \<comment> \<open>\<open>for pattern, confidence in patterns: for match in re.finditer(pattern, text)\<close>:
      the matches in the order of the two nested loops\<close>
  "pattern_items patterns text =
     concat (map (\<lambda>(pattern, conf). map (\<lambda>m. (pattern, conf, m)) (finditer pattern None text)) patterns)"

definition caught :: "py_error list \<Rightarrow> py_error \<Rightarrow> py_error + 'a option" where
  \<comment> \<open>\<open>except (...): continue\<close>\<close>
  "caught handled e = (if e \<in> set handled then Inr None else Inl e)"

subsection \<open>extract_patient_age\<close>

definition gender_word :: regex where
  \<comment> \<open>\<open>[Mm]ale|[Ff]emale\<close>\<close>
  "gender_word = Alt (Seq (Chr (Pos [C CHR ''M'', C CHR ''m''])) (lit ''ale''))
                     (Seq (Chr (Pos [C CHR ''F'', C CHR ''f''])) (lit ''emale''))"

definition years_word :: regex where
  \<comment> \<open>\<open>[Yy]ears?\<close>\<close>
  "years_word = seqs [Chr (Pos [C CHR ''Y'', C CHR ''y'']), lit ''ear'', opt_c (Pos [C CHR ''s''])]"

definition age_word :: regex where
  \<comment> \<open>\<open>[Aa]ge\<close>\<close>
  "age_word = Seq (Chr (Pos [C CHR ''A'', C CHR ''a''])) (lit ''ge'')"

definition MF :: regex where
  \<comment> \<open>\<open>[MF]\<close>\<close>
  "MF = Chr (Pos [C CHR ''M'', C CHR ''F''])"

definition age_patterns :: "(regex \<times> int) list" where
  \<open>age_patterns =
    [ \<comment> \<open>\<open>(\d+)\s*[Yy]ears?\s*([Mm]ale|[Ff]emale)\<close>\<close>
      (seqs [Grp 1 (plus (Pos [D])), ws, years_word, ws, Grp 2 gender_word], 95),
      \<comment> \<open>\<open>[Aa]ge[:\s]*(\d+)\<close>\<close>
      (seqs [age_word, star (Pos [C CHR '':'', S]), Grp 1 (plus (Pos [D]))], 90),
      \<comment> \<open>\<open>(\d+)\s*[Yy]\.?[Oo]\.?\<close>\<close>
      (seqs [Grp 1 (plus (Pos [D])), ws, Chr (Pos [C CHR ''Y'', C CHR ''y'']), opt_c (Pos [C CHR ''.'']),
             Chr (Pos [C CHR ''O'', C CHR ''o'']), opt_c (Pos [C CHR ''.''])], 85),
      \<comment> \<open>\<open>(\d+)\s*([MF])\b\<close>\<close>
      (seqs [Grp 1 (plus (Pos [D])), ws, Grp 2 MF, WordB], 80),
      \<comment> \<open>\<open>(\d+)(?=.*(?:[Mm]ale|[Ff]emale|[MF]))\<close>\<close>
      (seqs [Grp 1 (plus (Pos [D])), Ahead (Seq (star Dot) (Alt gender_word MF))], 70)
    ]\<close>

definition int_group :: "rmatch \<Rightarrow> nat \<Rightarrow> py_error + int" where
  \<comment> \<open>\<open>int(match.group(i))\<close>: \<open>int(None)\<close> raises TypeError\<close>
  "int_group m i = (case group m i of None \<Rightarrow> Inl TypeError | Some g \<Rightarrow> py_int g)"

definition age_candidate :: "regex \<times> int \<times> rmatch \<Rightarrow> py_error + int demographic_field option" where
  \<comment> \<open>the body of the inner loop\<close>
  "age_candidate item = (case item of (pattern, conf, m) \<Rightarrow>
     (case int_group m 1 of
        Inl e \<Rightarrow> caught [ValueError, IndexError] e
      | Inr age \<Rightarrow>
          (if 18 \<le> age \<and> age \<le> 120
           then Inr (Some \<lparr>value' = Some age, confidence = conf, raw_text = whole m, pattern_used = Some pattern\<rparr>)
           else Inr None)))"

definition extract_patient_age :: "string \<Rightarrow> py_error + int demographic_field" where
  "extract_patient_age text =
     best_or not_found (scan age_candidate confidence (pattern_items age_patterns text) (None, 0))"

subsection \<open>extract_patient_sex\<close>






subsection \<open>extract_test_date\<close>

definition slash_date :: regex where
  \<comment> \<open>\<open>(\d{2}/\d{2}/\d{2,4})\<close>\<close>
  "slash_date = Grp 1 (seqs [Rep True (Pos [D]) 2 (Some 2), ch CHR ''/'', Rep True (Pos [D]) 2 (Some 2),
                             ch CHR ''/'', Rep True (Pos [D]) 2 (Some 4)])"

definition iso_date :: regex where
  \<comment> \<open>\<open>(\d{4}-\d{2}-\d{2})\<close>\<close>
  "iso_date = Grp 1 (seqs [Rep True (Pos [D]) 4 (Some 4), ch CHR ''-'', Rep True (Pos [D]) 2 (Some 2),
                           ch CHR ''-'', Rep True (Pos [D]) 2 (Some 2)])"

definition date_patterns :: "(regex \<times> int) list" where
  \<open>date_patterns =
    [ \<comment> \<open>\<open>[Cc]ollected[:\s]*(\d{2}/\d{2}/\d{2,4})\<close>\<close>
      (seqs [Chr (Pos [C CHR ''C'', C CHR ''c'']), lit ''ollected'', star (Pos [C CHR '':'', S]), slash_date], 95),
      \<comment> \<open>\<open>[Rr]eported[:\s]*(\d{2}/\d{2}/\d{2,4})\<close>\<close>
      (seqs [Chr (Pos [C CHR ''R'', C CHR ''r'']), lit ''eported'', star (Pos [C CHR '':'', S]), slash_date], 90),
      \<comment> \<open>\<open>[Dd]ate[:\s]*(\d{4}-\d{2}-\d{2})\<close>\<close>
      (seqs [Chr (Pos [C CHR ''D'', C CHR ''d'']), lit ''ate'', star (Pos [C CHR '':'', S]), iso_date], 90),
      \<comment> \<open>\<open>(\d{2}/\d{2}/\d{2,4})\<close>\<close>
      (slash_date, 70),
      \<comment> \<open>\<open>(\d{4}-\d{2}-\d{2})\<close>\<close>
      (iso_date, 75)
    ]\<close>

text \<open>
  \<open>datetime.strptime\<close> turns the format into a regular expression, matches it
  at the start of the string, refuses unconverted data after the match, and
  builds the date, which refuses a year below 1 and a day the month does not
  have. The directives: \<open>%m\<close> is \<open>1[0-2]|0[1-9]|[1-9]\<close>, \<open>%d\<close> is
  \<open>3[0-1]|[1-2]\d|0[1-9]|[1-9]| [1-9]\<close>, \<open>%Y\<close> is \<open>\d\d\d\d\<close>.
\<close>

definition digit19 :: regex where
  "digit19 = Chr (Pos (map C ''123456789''))"

definition dir_m :: regex where
  "dir_m = Alt (Seq (ch CHR ''1'') (Chr (Pos (map C ''012''))))
            (Alt (Seq (ch CHR ''0'') digit19) digit19)"

definition dir_d :: regex where
  "dir_d = Alt (Seq (ch CHR ''3'') (Chr (Pos (map C ''01''))))
            (Alt (Seq (Chr (Pos (map C ''12''))) (Chr (Pos [D])))
            (Alt (Seq (ch CHR ''0'') digit19)
            (Alt digit19 (Seq (ch CHR '' '') digit19))))"

definition dir_Y :: regex where
  "dir_Y = Rep True (Pos [D]) 4 (Some 4)"

definition leap_year :: "int \<Rightarrow> bool" where
  "leap_year y = (y mod 4 = 0 \<and> (y mod 100 \<noteq> 0 \<or> y mod 400 = 0))"

definition days_in_month :: "int \<Rightarrow> int \<Rightarrow> int" where
  "days_in_month y m =
     (if m = 2 then (if leap_year y then 29 else 28)
      else if m \<in> {4, 6, 9, 11} then 30 else 31)"

definition make_date :: "int \<Rightarrow> int \<Rightarrow> int \<Rightarrow> py_error + (int \<times> int \<times> int)" where
  "make_date y m d =
     (if 1 \<le> y \<and> y \<le> 9999 \<and> 1 \<le> m \<and> m \<le> 12 \<and> 1 \<le> d \<and> d \<le> days_in_month y m
      then Inr (y, m, d) else Inl ValueError)"

definition strptime :: "regex \<Rightarrow> string \<Rightarrow> py_error + (int \<times> int \<times> int)" where
  \<comment> \<open>the format's expression binds group 1 to the year, 2 to the month, 3 to the day\<close>
  "strptime fmt s =
     (case ms fmt (None, s, []) of
        [] \<Rightarrow> Inl ValueError
      | (p, r, gs) # _ \<Rightarrow>
          (if r \<noteq> [] then Inl ValueError
           else (case (map_of gs 1, map_of gs 2, map_of gs 3) of
                   (Some y, Some m, Some d) \<Rightarrow>
                     (case (py_int y, py_int m, py_int (dropWhile (\<lambda>c. c = CHR '' '') d)) of
                        (Inr yi, Inr mi, Inr di) \<Rightarrow> make_date yi mi di
                      | _ \<Rightarrow> Inl ValueError)
                 | _ \<Rightarrow> Inl ValueError)))"

definition fmt_mdY :: regex where
  \<comment> \<open>\<open>"%m/%d/%Y"\<close>\<close>
  "fmt_mdY = seqs [Grp 2 dir_m, ch CHR ''/'', Grp 3 dir_d, ch CHR ''/'', Grp 1 dir_Y]"

definition fmt_Ymd :: regex where
  \<comment> \<open>\<open>"%Y-%m-%d"\<close>\<close>
  "fmt_Ymd = seqs [Grp 1 dir_Y, ch CHR ''-'', Grp 2 dir_m, ch CHR ''-'', Grp 3 dir_d]"

fun str_nat :: "nat \<Rightarrow> string" where
  \<comment> \<open>\<open>str(n)\<close> for \<open>n \<ge> 0\<close>\<close>
  "str_nat n = (if n < 10 then [char_of (48 + n)] else str_nat (n div 10) @ [char_of (48 + n mod 10)])"

definition pad :: "nat \<Rightarrow> string \<Rightarrow> string" where
  "pad w s = replicate (w - length s) (CHR ''0'') @ s"

definition strftime_Ymd :: "int \<times> int \<times> int \<Rightarrow> string" where
  \<comment> \<open>\<open>strftime("%Y-%m-%d")\<close>, the year on four digits\<close>
  "strftime_Ymd dt = (case dt of (y, m, d) \<Rightarrow>
     pad 4 (str_nat (nat y)) @ ''-'' @ pad 2 (str_nat (nat m)) @ ''-'' @ pad 2 (str_nat (nat d)))"

definition expand_year :: "string \<Rightarrow> py_error + string" where
  \<comment> \<open>the two-digit-year branch: \<open>parts = date_str.split('/')\<close>, \<open>year = int(parts[2])\<close>,
      the century, and the date string put together again\<close>
  "expand_year date_str =
     (let parts = split_on (CHR ''/'') date_str in
      if length parts < 3 then Inl IndexError
      else (case py_int (parts ! 2) of
              Inl e \<Rightarrow> Inl e
            | Inr year \<Rightarrow>
                (let year' = (if year < 50 then year + 2000 else year + 1900)
                 in Inr (parts ! 0 @ ''/'' @ parts ! 1 @ ''/'' @ str_nat (nat year')))))"

definition parse_date :: "string \<Rightarrow> py_error + (int \<times> int \<times> int) option" where
  \<comment> \<open>\<open>parsed_date\<close>, None when the string holds neither a slash nor a dash\<close>
  "parse_date date_str =
     (if contains ''/'' date_str then
        (case (if length (last (split_on (CHR ''/'') date_str)) = 2 then expand_year date_str
               else Inr date_str) of
           Inl e \<Rightarrow> Inl e
         | Inr ds \<Rightarrow> (case strptime fmt_mdY ds of Inl e \<Rightarrow> Inl e | Inr dt \<Rightarrow> Inr (Some dt)))
      else if contains ''-'' date_str then
        (case strptime fmt_Ymd date_str of Inl e \<Rightarrow> Inl e | Inr dt \<Rightarrow> Inr (Some dt))
      else Inr None)"

definition in_window :: "int \<Rightarrow> int \<Rightarrow> bool" where
  \<comment> \<open>\<open>(current_year - 10) <= parsed_date.year <= (current_year + 1)\<close>\<close>
  "in_window current_year y = (current_year - 10 \<le> y \<and> y \<le> current_year + 1)"

text \<open>
  \<open>datetime.now().year\<close> is read from the clock at each match; it is the
  parameter \<open>current_year\<close>.
\<close>

definition date_candidate :: "int \<Rightarrow> regex \<times> int \<times> rmatch \<Rightarrow> py_error + string demographic_field option" where
  "date_candidate current_year item = (case item of (pattern, conf, m) \<Rightarrow>
     (case group m 1 of
        None \<Rightarrow> Inl TypeError
      | Some date_str \<Rightarrow>
          (case parse_date date_str of
             Inl e \<Rightarrow> caught [ValueError, IndexError] e
           | Inr None \<Rightarrow> Inr None
           | Inr (Some (y, mo, d)) \<Rightarrow>
               (if in_window current_year y
                then Inr (Some \<lparr>value' = Some (strftime_Ymd (y, mo, d)), confidence = conf,
                                raw_text = whole m, pattern_used = Some pattern\<rparr>)
                else Inr None))))"

definition extract_test_date :: "int \<Rightarrow> string \<Rightarrow> py_error + string demographic_field" where
  "extract_test_date current_year text =
     best_or not_found (scan (date_candidate current_year) confidence (pattern_items date_patterns text) (None, 0))"

subsection \<open>extract_patient_demographics\<close>

record demographics =
  age :: "int demographic_field"
  sex :: "string demographic_field"
  test_date :: "string demographic_field"


section \<open>Notions used to state the properties\<close>

text \<open>
  \<open>binds i r\<close>: every match of \<open>r\<close> passes through group \<open>i\<close>, so that
  \<open>match.group(i)\<close> is a string and not None.
\<close>

fun binds :: "nat \<Rightarrow> regex \<Rightarrow> bool" where
  "binds i (Grp j a) = (i = j \<or> binds i a)"
| "binds i (Seq a b) = (binds i a \<or> binds i b)"
| "binds i (Alt a b) = (binds i a \<and> binds i b)"
| "binds i r = False"

definition offered :: "('a \<Rightarrow> py_error + 'c option) \<Rightarrow> 'a list \<Rightarrow> 'c list" where
  \<comment> \<open>the candidates a loop body offers on a list of items, in scan order\<close>
  "offered f xs = concat (map (\<lambda>x. case f x of Inr (Some c) \<Rightarrow> [c] | _ \<Rightarrow> []) xs)"

definition first_best :: "('c \<Rightarrow> int) \<Rightarrow> 'c list \<Rightarrow> 'c option" where
  \<comment> \<open>the first candidate whose confidence no candidate exceeds\<close>
  "first_best conf cs = find (\<lambda>c. list_all (\<lambda>d. conf d \<le> conf c) cs) cs"

definition field_candidates :: "(string \<Rightarrow> string \<Rightarrow> int) \<Rightarrow> string \<Rightarrow> string list \<Rightarrow> field_result list" where
  \<comment> \<open>the qualifying candidates of find_field_value: a line and a variation whose
      similarity exceeds 70 and whose line holds a value\<close>
  "field_candidates ratio text field_variations =
     offered (field_candidate ratio) (field_items text field_variations)"

definition age_candidates :: "string \<Rightarrow> int demographic_field list" where
  \<comment> \<open>the accepted candidates of extract_patient_age\<close>
  "age_candidates text = offered age_candidate (pattern_items age_patterns text)"

definition matched_ages :: "string \<Rightarrow> int list" where
  \<comment> \<open>the integers that the age patterns capture in a text, accepted or not\<close>
  "matched_ages text =
     concat (map (\<lambda>(pattern, conf, m). case int_group m 1 of Inr a \<Rightarrow> [a] | Inl e \<Rightarrow> [])
                 (pattern_items age_patterns text))"

fun captured_number :: "regex list \<Rightarrow> string \<Rightarrow> py_error + rat option" where
  \<comment> \<open>the number that the loop of parse_value_with_unit reads: the capture of the first
      pattern, in the order of the list, that matches with a valid number\<close>
  "captured_number [] text = Inr None"
| "captured_number (pat # pats) text =
     (case search pat None text of
        None \<Rightarrow> captured_number pats text
      | Some m \<Rightarrow>
          (case float_group m 1 of
             Inl e \<Rightarrow> (if e = ValueError then captured_number pats text else Inl e)
           | Inr v \<Rightarrow> Inr (Some v)))"

definition has_x10_marker :: "string \<Rightarrow> bool" where
  "has_x10_marker text = list_ex (\<lambda>mk. contains mk (py_lower text)) x10_markers"

definition has_per_ul :: "string \<Rightarrow> bool" where
  "has_per_ul text =
     (contains (''/'' @ [CHR 0xB5] @ ''l'') (py_lower text) \<or> contains ''/ul'' (py_lower text))"


definition keys :: "('k \<times> 'v) list \<Rightarrow> 'k set" where
  \<comment> \<open>the keys of a dict\<close>
  "keys d = fst ` set d"

definition found_value :: "(string \<Rightarrow> string \<Rightarrow> int) \<Rightarrow> string \<Rightarrow> string \<Rightarrow> string list \<Rightarrow> field_result option" where
  \<comment> \<open>the result of find_field_value for a field, when it holds a value\<close>
  "found_value ratio text k vars =
     (case find_field_value ratio text k vars of
        Inl e \<Rightarrow> None
      | Inr f \<Rightarrow> (if value' f \<noteq> None then Some f else None))"

text \<open>
  \<open>needs cls r\<close>: every match of \<open>r\<close> consumes a character of the class
  \<open>cls\<close>.
\<close>

fun needs :: "cclass \<Rightarrow> regex \<Rightarrow> bool" where
  "needs cls (Chr c) = (c = cls)"
| "needs cls (Rep greedy c lo hi) = (c = cls \<and> 0 < lo)"
| "needs cls (Seq a b) = (needs cls a \<or> needs cls b)"
| "needs cls (Alt a b) = (needs cls a \<and> needs cls b)"
| "needs cls (Grp i a) = needs cls a"
| "needs cls r = False"

definition per_ul_tail :: string where
  \<comment> \<open>a space and the unit cells per microlitre, as reports print it\<close>
  "per_ul_tail = '' cells/'' @ [CHR 0xB5] @ ''L''"

definition plain_label :: "string \<Rightarrow> bool" where
  \<comment> \<open>a label before a value: no digit, no letter x, no registered or copyright sign,
      and no k followed by a slash\<close>
  "plain_label lbl =
     (list_all (\<lambda>c. \<not> is_digit c \<and> lower_char c \<notin> {CHR ''x'', CHR 0xAE, CHR 0xA9}) lbl \<and>
      \<not> contains ''k/'' (py_lower lbl))"

definition numeral :: "string \<Rightarrow> bool" where
  \<comment> \<open>a decimal numeral: digits, then optionally a point and digits\<close>
  "numeral s =
     (let ip = takeWhile is_digit s; fr = dropWhile is_digit s
      in ip \<noteq> [] \<and> (fr = [] \<or> (hd fr = CHR ''.'' \<and> list_all is_digit (tl fr))))"

section \<open>Groups that every match binds\<close>

lemma advance_groups: "snd (snd (advance (p, r, gs) k)) = gs"
  by (simp add: advance_def)

lemma ms_keeps_groups:
  "st' \<in> set (ms re st) \<Longrightarrow> map_of (snd (snd st)) i = Some x \<Longrightarrow> \<exists>y. map_of (snd (snd st')) i = Some y"
proof (induction re arbitrary: st st' x)
  case (Rep g c lo hi)
  obtain p r gs where st: "st = (p, r, gs)" by (cases st) auto
  from Rep.prems(1) obtain k where "st' = advance (p, r, gs) k"
    unfolding st by (auto simp: Let_def)
  with Rep.prems(2) show ?case by (simp add: st advance_def)
next
  case (Seq a b)
  from Seq.prems(1) obtain mid where m: "mid \<in> set (ms a st)" "st' \<in> set (ms b mid)" by auto
  from Seq.IH(1)[OF m(1) Seq.prems(2)] obtain y where "map_of (snd (snd mid)) i = Some y" ..
  from Seq.IH(2)[OF m(2) this] show ?case .
next
  case (Grp j a)
  obtain p r gs where st: "st = (p, r, gs)" by (cases st) auto
  from Grp.prems(1) obtain p' r' gs' where
    m: "(p', r', gs') \<in> set (ms a (p, r, gs))" and st': "st' = (p', r', (j, take (length r - length r') r) # gs')"
    unfolding st by auto
  from Grp.IH[OF m, of x] Grp.prems(2) obtain y where "map_of gs' i = Some y" by (auto simp: st)
  then show ?case by (simp add: st')
next
  case (Chr c)
  then show ?case by (cases st) (auto split: list.splits if_splits)
qed (cases st; auto split: if_splits)+

lemma ms_binds:
  "st' \<in> set (ms re st) \<Longrightarrow> binds i re \<Longrightarrow> \<exists>y. map_of (snd (snd st')) i = Some y"
proof (induction re arbitrary: st st')
  case (Seq a b)
  from Seq.prems(1) obtain mid where m: "mid \<in> set (ms a st)" "st' \<in> set (ms b mid)" by auto
  show ?case
  proof (cases "binds i a")
    case True
    from Seq.IH(1)[OF m(1) True] obtain y where "map_of (snd (snd mid)) i = Some y" ..
    from ms_keeps_groups[OF m(2) this] show ?thesis .
  next
    case False
    with Seq.prems(2) have "binds i b" by simp
    from Seq.IH(2)[OF m(2) this] show ?thesis .
  qed
next
  case (Alt a b)
  from Alt.prems(2) have ba: "binds i a" and bb: "binds i b" by simp_all
  from Alt.prems(1) have "st' \<in> set (ms a st) \<or> st' \<in> set (ms b st)" by simp
  then show ?case
  proof
    assume "st' \<in> set (ms a st)"
    from Alt.IH(1)[OF this ba] show ?thesis .
  next
    assume "st' \<in> set (ms b st)"
    from Alt.IH(2)[OF this bb] show ?thesis .
  qed
next
  case (Grp j a)
  obtain p r gs where st: "st = (p, r, gs)" by (cases st) auto
  from Grp.prems(1) obtain p' r' gs' where
    m: "(p', r', gs') \<in> set (ms a (p, r, gs))" and st': "st' = (p', r', (j, take (length r - length r') r) # gs')"
    unfolding st by auto
  show ?case
  proof (cases "i = j")
    case True
    then show ?thesis by (simp add: st')
  next
    case False
    with Grp.prems(2) have "binds i a" by simp
    from Grp.IH[OF m this] show ?thesis using False by (simp add: st')
  qed
qed simp_all

lemma search_binds:
  "search re p s = Some m \<Longrightarrow> binds i re \<Longrightarrow> \<exists>g. group m i = Some g"
proof (induction re p s rule: search.induct)
  case (1 re p)
  then obtain st rest where ms: "ms re (p, [], []) = st # rest" and m: "m = mk_match [] st"
    by (auto split: list.splits)
  then have "st \<in> set (ms re (p, [], []))" by simp
  from ms_binds[OF this "1.prems"(2)] show ?case
    by (cases st) (auto simp: m mk_match_def group_def)
next
  case (2 re p c cs)
  show ?case
  proof (cases "ms re (p, c # cs, [])")
    case Nil
    with 2 show ?thesis by simp
  next
    case (Cons st rest)
    with "2.prems" have m: "m = mk_match (c # cs) st" by simp
    from Cons have "st \<in> set (ms re (p, c # cs, []))" by simp
    from ms_binds[OF this "2.prems"(2)] show ?thesis
      by (cases st) (auto simp: m mk_match_def group_def)
  qed
qed

lemma finditer_binds:
  "m \<in> set (finditer re p s) \<Longrightarrow> binds i re \<Longrightarrow> \<exists>g. group m i = Some g"
proof (induction re p s rule: finditer.induct)
  case (1 re p s)
  show ?case
  proof (cases "search re p s")
    case None
    with "1.prems" show ?thesis by (simp add: finditer.simps[of re p s])
  next
    case (Some m0)
    show ?thesis
    proof (cases "m = m0")
      case True
      with Some search_binds "1.prems"(2) show ?thesis by blast
    next
      case False
      show ?thesis
      proof (cases "length (after m0) < length s")
        case True
        with "1.prems" Some False have "m \<in> set (finditer re (after_prev m0) (after m0))"
          by (simp add: finditer.simps[of re p s])
        from "1.IH"(1)[OF Some True this "1.prems"(2)] show ?thesis .
      next
        case nl: False
        show ?thesis
        proof (cases s)
          case Nil
          with "1.prems" Some False nl show ?thesis by (simp add: finditer.simps[of re p "[]"])
        next
          case (Cons c cs)
          with "1.prems" Some False nl have "m \<in> set (finditer re (Some c) cs)"
            by (simp add: finditer.simps[of re p "c # cs"])
          from "1.IH"(2)[OF Some nl Cons this "1.prems"(2)] show ?thesis .
        qed
      qed
    qed
  qed
qed

section \<open>Errors of the conversions\<close>

lemma py_float_error: "py_float s = Inl e \<Longrightarrow> e = ValueError"
  by (auto simp: py_float_def Let_def split: list.splits if_splits)

lemma py_int_error: "py_int s = Inl e \<Longrightarrow> e = ValueError"
  by (auto simp: py_int_def split: if_splits)

section \<open>The scan\<close>

lemma scan_offered:
  "\<forall>x\<in>set xs. \<exists>c. f x = Inr c \<Longrightarrow> scan f conf xs st = Inr (fold (keep_best conf) (offered f xs) st)"
proof (induction xs arbitrary: st)
  case Nil
  then show ?case by (simp add: offered_def)
next
  case (Cons x xs)
  then obtain c where c: "f x = Inr c" by auto
  from Cons have IH: "\<And>st. scan f conf xs st = Inr (fold (keep_best conf) (offered f xs) st)" by simp
  show ?case
    using c IH by (cases c) (simp_all add: offered_def)
qed

lemma keep_best_run:
  "fold (keep_best conf) cs (Some b, conf b) =
     (case first_best conf (b # cs) of None \<Rightarrow> (None, 0) | Some w \<Rightarrow> (Some w, conf w))"
proof (induction cs arbitrary: b)
  case Nil
  then show ?case by (simp add: first_best_def)
next
  case (Cons x xs)
  show ?case
  proof (cases "conf x > conf b")
    case True
    have "first_best conf (b # x # xs) = first_best conf (x # xs)"
      using True by (auto simp: first_best_def list_all_iff intro!: find_cong)
    with Cons[of x] True show ?thesis by (simp add: keep_best_def)
  next
    case False
    have "first_best conf (b # x # xs) = first_best conf (b # xs)"
      using False by (auto simp: first_best_def list_all_iff intro!: find_cong)
    with Cons[of b] False show ?thesis by (simp add: keep_best_def)
  qed
qed

lemma keep_best_start:
  assumes "\<forall>c\<in>set cs. conf c > 0"
  shows "fold (keep_best conf) cs (None, 0) =
     (case first_best conf cs of None \<Rightarrow> (None, 0) | Some w \<Rightarrow> (Some w, conf w))"
proof (cases cs)
  case Nil
  then show ?thesis by (simp add: first_best_def)
next
  case (Cons x xs)
  with assms have "conf x > 0" by simp
  then show ?thesis using keep_best_run[of conf xs x] by (simp add: Cons keep_best_def)
qed

lemma first_best_None: "first_best conf cs = None \<longleftrightarrow> cs = []"
proof
  assume n: "first_best conf cs = None"
  show "cs = []"
  proof (rule ccontr)
    assume ne: "cs \<noteq> []"
    then obtain w where w: "w \<in> set cs" "conf w = Max (conf ` set cs)"
      by (metis (no_types, lifting) List.finite_set Max_in finite_imageI image_iff image_is_empty set_empty)
    then have "list_all (\<lambda>d. conf d \<le> conf w) cs" by (simp add: list_all_iff)
    with w n show False by (auto simp: first_best_def find_None_iff)
  qed
qed (simp add: first_best_def)

lemma first_best_Some:
  "first_best conf cs = Some w \<Longrightarrow> w \<in> set cs \<and> (\<forall>d\<in>set cs. conf d \<le> conf w)"
  by (auto simp: first_best_def find_Some_iff list_all_iff)

lemma scan_result:
  assumes tot: "\<forall>x\<in>set xs. \<exists>c. f x = Inr c" and pos: "\<forall>c\<in>set (offered f xs). conf c > 0"
  shows "best_or dflt (scan f conf xs (None, 0)) =
           Inr (case first_best conf (offered f xs) of None \<Rightarrow> dflt | Some w \<Rightarrow> w)"
  using scan_offered[OF tot, of conf "(None, 0)"] keep_best_start[OF pos]
  by (simp add: best_or_def split: option.splits)

section \<open>parse_value_with_unit returns normally\<close>

lemma value_patterns_bind: "\<forall>pat\<in>set value_patterns. binds 1 pat"
  by (simp add: value_patterns_def seqs_def number_def)

lemma try_patterns_total:
  "\<forall>pat\<in>set pats. binds 1 pat \<Longrightarrow> \<exists>r. try_patterns pats text = Inr r"
proof (induction pats)
  case Nil
  then show ?case by simp
next
  case (Cons pat pats)
  then have IH: "\<exists>r. try_patterns pats text = Inr r" and b: "binds 1 pat" by simp_all
  show ?case
  proof (cases "search pat None text")
    case None
    with IH show ?thesis by simp
  next
    case (Some m)
    from search_binds[OF Some b] obtain g where g: "group m 1 = Some g" ..
    show ?thesis
    proof (cases "py_float g")
      case (Inl e)
      with py_float_error have "e = ValueError" by blast
      with Some g Inl IH show ?thesis by (simp add: float_group_def)
    next
      case (Inr v)
      with Some g show ?thesis by (simp add: float_group_def)
    qed
  qed
qed

lemma try_patterns_none:
  "\<forall>pat\<in>set pats. (case search pat None text of None \<Rightarrow> True | Some m \<Rightarrow> float_group m 1 = Inl ValueError)
     \<Longrightarrow> try_patterns pats text = Inr (None, None)"
  by (induction pats) (auto split: option.splits)

lemma parse_value_with_unit_total: "\<exists>r. parse_value_with_unit text = Inr r"
  unfolding parse_value_with_unit_def
  by (rule try_patterns_total[OF value_patterns_bind])

text \<open>
  C7. For every input string, parse_value_with_unit returns normally: no
  exception leaves it. When no pattern matches, or every pattern that matches
  captures something that is not a valid number, it returns the pair
  (None, None).
\<close>

theorem parse_value_with_unit_never_raises:
  "(\<exists>v u. parse_value_with_unit text = Inr (v, u)) \<and>
   ((\<forall>pat\<in>set value_patterns.
        case search pat None (clean text) of
          None \<Rightarrow> True
        | Some m \<Rightarrow> float_group m 1 = Inl ValueError)
     \<longrightarrow> parse_value_with_unit text = Inr (None, None))"
proof
  from try_patterns_total[OF value_patterns_bind, of "clean text"]
  show "\<exists>v u. parse_value_with_unit text = Inr (v, u)"
    by (auto simp: parse_value_with_unit_def)
next
  show "(\<forall>pat\<in>set value_patterns.
        case search pat None (clean text) of
          None \<Rightarrow> True
        | Some m \<Rightarrow> float_group m 1 = Inl ValueError)
     \<longrightarrow> parse_value_with_unit text = Inr (None, None)"
    unfolding parse_value_with_unit_def using try_patterns_none by blast
qed

lemma no_match_example:
  "\<forall>pat\<in>set value_patterns. search pat None (clean ''N/A'') = None"
  by code_simp

theorem parse_value_with_unit_never_raises_witness:
  "parse_value_with_unit ''N/A'' = Inr (None, None)"
  using parse_value_with_unit_never_raises[of "''N/A''"] no_match_example
  by (auto split: option.splits)

lemma found_required_all:
  "length (filter (\<lambda>field. field \<in> keys ev) required_fields) = length required_fields
     \<longleftrightarrow> set required_fields \<subseteq> keys ev"
  by (simp add: required_fields_def)

section \<open>The quality verdict\<close>

lemma required_all:
  "card (set required_fields \<inter> K) = 3 \<longleftrightarrow> set required_fields \<subseteq> K"
proof -
  have c: "card (set required_fields) = 3" by (simp add: required_fields_def)
  show ?thesis
  proof
    assume "card (set required_fields \<inter> K) = 3"
    with c have "set required_fields \<inter> K = set required_fields"
      by (intro card_subset_eq) auto
    then show "set required_fields \<subseteq> K" by blast
  next
    assume "set required_fields \<subseteq> K"
    then have "set required_fields \<inter> K = set required_fields" by blast
    with c show "card (set required_fields \<inter> K) = 3" by simp
  qed
qed

lemma required_le: "card (set required_fields \<inter> K) \<le> 3"
proof -
  have "card (set required_fields \<inter> K) \<le> card (set required_fields)"
    by (intro card_mono) auto
  then show ?thesis by (simp add: required_fields_def)
qed

lemma found_required_card:
  "length (filter (\<lambda>field. field \<in> set (map fst ev)) required_fields) = card (set required_fields \<inter> keys ev)"
  unfolding keys_def by (simp add: distinct_length_filter required_fields_def Int_commute)

text \<open>
  C5. For every map of extracted fields, with \<open>avg\<close> the average confidence of
  all present fields (0 for the empty map) and \<open>n\<close> the number of required
  fields present: overall_quality is "high" exactly when \<open>avg > 80\<close> and all
  three required fields are present; "medium" exactly when it is not high,
  \<open>avg > 60\<close> and \<open>n \<ge> 2\<close>; "low" exactly when it is neither; and
  manual_review_recommended is true exactly when \<open>avg < 70\<close> or some
  required field is missing.
\<close>

theorem validate_extraction_quality_verdict:
  "(let q = validate_extraction_quality extracted_values;
        avg = (if extracted_values = [] then 0
               else of_int (sum_list (map (confidence \<circ> snd) extracted_values)) / of_nat (length extracted_values));
        n = card (set required_fields \<inter> keys extracted_values);
        all_required = (set required_fields \<subseteq> keys extracted_values)
    in average_confidence q = avg \<and> required_fields_found q = n \<and>
       (all_required = (n = 3)) \<and>
       (overall_quality q = ''high'') = (avg > 80 \<and> all_required) \<and>
       (overall_quality q = ''medium'') = (overall_quality q \<noteq> ''high'' \<and> avg > 60 \<and> n \<ge> 2) \<and>
       (overall_quality q = ''low'') = (overall_quality q \<noteq> ''high'' \<and> overall_quality q \<noteq> ''medium'') \<and>
       manual_review_recommended q = (avg < 70 \<or> \<not> all_required))"
proof -
  have m: "map (\<lambda>(field, data). confidence data) extracted_values = map (confidence \<circ> snd) extracted_values"
    by (simp add: case_prod_unfold comp_def)
  have l3: "length required_fields = 3" by (simp add: required_fields_def)
  show ?thesis
    unfolding validate_extraction_quality_def Let_def found_required_card m l3
    using required_all[of "keys extracted_values"] required_le[of "keys extracted_values"] by auto
qed

section \<open>find_field_value\<close>

lemma offered_mem: "c \<in> set (offered f xs) \<Longrightarrow> \<exists>x\<in>set xs. f x = Inr (Some c)"
  by (auto simp: offered_def split: sum.splits option.splits)

lemma field_candidate_total: "\<exists>c. field_candidate ratio lv = Inr c"
proof -
  obtain line variation where lv: "lv = (line, variation)" by (cases lv) auto
  from parse_value_with_unit_total[of line] obtain v u where "parse_value_with_unit line = Inr (v, u)"
    by auto
  then show ?thesis
    by (cases v) (simp_all add: field_candidate_def lv Let_def)
qed

lemma field_candidate_offer:
  "field_candidate ratio lv = Inr (Some c) \<Longrightarrow> 70 < confidence c \<and> confidence c \<le> 95 \<and> value' c \<noteq> None"
  by (auto simp: field_candidate_def Let_def split: prod.splits if_splits sum.splits option.splits)

lemma field_candidates_conf:
  "c \<in> set (field_candidates ratio text vars) \<Longrightarrow> 70 < confidence c \<and> confidence c \<le> 95 \<and> value' c \<noteq> None"
proof -
  assume "c \<in> set (field_candidates ratio text vars)"
  then obtain x where "field_candidate ratio x = Inr (Some c)"
    unfolding field_candidates_def using offered_mem by fastforce
  then show ?thesis by (rule field_candidate_offer)
qed

lemma find_field_value_eq:
  "find_field_value ratio text field_name vars =
     Inr (case first_best confidence (field_candidates ratio text vars) of None \<Rightarrow> no_field | Some c \<Rightarrow> c)"
proof -
  have tot: "\<forall>x\<in>set (field_items text vars). \<exists>c. field_candidate ratio x = Inr c"
    using field_candidate_total by blast
  have pos: "\<forall>c\<in>set (offered (field_candidate ratio) (field_items text vars)). confidence c > 0"
    using field_candidates_conf[of _ ratio "text" vars] unfolding field_candidates_def by fastforce
  show ?thesis
    unfolding find_field_value_def field_candidates_def by (rule scan_result[OF tot pos])
qed


section \<open>extract_cbc_values\<close>

lemma variation_pattern_binds: "binds 1 (variation_pattern v) \<and> binds 2 (variation_pattern v)"
  by (simp add: variation_pattern_def seqs_def range_pattern_def)

lemma float_group_total:
  "group m i = Some g \<Longrightarrow> float_group m i = Inl e \<Longrightarrow> e = ValueError"
  by (auto simp: float_group_def dest: py_float_error)

lemma first_range_total:
  "\<forall>m\<in>set ms'. (\<exists>g. group m 1 = Some g) \<and> (\<exists>g. group m 2 = Some g) \<Longrightarrow> \<exists>r. first_range ms' = Inr r"
proof (induction ms')
  case Nil
  then show ?case by simp
next
  case (Cons m ms')
  then obtain g1 g2 where g: "group m 1 = Some g1" "group m 2 = Some g2" by auto
  from Cons have IH: "\<exists>r. first_range ms' = Inr r" by simp
  show ?case
  proof (cases "range_of_match m")
    case (Inl e)
    then have "e = ValueError"
      using float_group_total[OF g(1)] float_group_total[OF g(2)]
      by (auto simp: range_of_match_def split: sum.splits if_splits)
    with Inl IH show ?thesis by simp
  next
    case (Inr rg)
    then show ?thesis by simp
  qed
qed

lemma ranges_of_variations_total:
  "distinct (map fst acc) \<Longrightarrow>
   \<exists>rr. ranges_of_variations text k vars acc = Inr rr \<and> distinct (map fst rr)"
proof (induction vars arbitrary: acc)
  case Nil
  then show ?case by simp
next
  case (Cons v vars)
  have "\<forall>m\<in>set (finditer (variation_pattern v) None text). (\<exists>g. group m 1 = Some g) \<and> (\<exists>g. group m 2 = Some g)"
    using finditer_binds variation_pattern_binds by blast
  from first_range_total[OF this] obtain r where r: "first_range (finditer (variation_pattern v) None text) = Inr r" ..
  show ?case
  proof (cases r)
    case None
    with r Cons show ?thesis by simp
  next
    case (Some rg)
    from Cons.prems have "distinct (map fst (AList.update k rg acc))" by (rule distinct_update)
    from Cons.IH[OF this] r Some show ?thesis by simp
  qed
qed

lemma ranges_of_fields_total:
  "distinct (map fst acc) \<Longrightarrow>
   \<exists>rr. ranges_of_fields text fs acc = Inr rr \<and> distinct (map fst rr)"
proof (induction fs arbitrary: acc)
  case Nil
  then show ?case by simp
next
  case (Cons kv fs)
  obtain k vars where kv: "kv = (k, vars)" by (cases kv) auto
  from ranges_of_variations_total[OF Cons.prems, of "text" k vars]
  obtain rr where rr: "ranges_of_variations text k vars acc = Inr rr" "distinct (map fst rr)" by auto
  from Cons.IH[OF rr(2)] rr(1) show ?case by (simp add: kv)
qed

lemma extract_reference_ranges_total:
  "\<exists>rr. extract_reference_ranges text = Inr rr \<and> distinct (map fst rr)"
  unfolding extract_reference_ranges_def by (rule ranges_of_fields_total) simp

lemma values_of_fields_map:
  "distinct (map fst fs) \<Longrightarrow>
   \<exists>ev. values_of_fields ratio text fs acc = Inr ev \<and>
     (\<forall>k. map_of ev k = (case map_of fs k of
                           None \<Rightarrow> map_of acc k
                         | Some vars \<Rightarrow> (case found_value ratio text k vars of None \<Rightarrow> map_of acc k | Some f \<Rightarrow> Some f)))"
proof (induction fs arbitrary: acc)
  case Nil
  then show ?case by simp
next
  case (Cons kv fs)
  obtain k0 vars0 where kv: "kv = (k0, vars0)" by (cases kv) auto
  from Cons.prems have d: "distinct (map fst fs)" and nk: "map_of fs k0 = None"
    by (auto simp: kv map_of_eq_None_iff)
  obtain f where f: "find_field_value ratio text k0 vars0 = Inr f"
    using find_field_value_eq by blast
  let ?acc' = "if value' f \<noteq> None then AList.update k0 f acc else acc"
  from Cons.IH[OF d, of ?acc'] obtain ev where
    ev: "values_of_fields ratio text fs ?acc' = Inr ev"
    and m: "\<And>k. map_of ev k = (case map_of fs k of
                           None \<Rightarrow> map_of ?acc' k
                         | Some vars \<Rightarrow> (case found_value ratio text k vars of None \<Rightarrow> map_of ?acc' k | Some f \<Rightarrow> Some f))"
    by blast
  have "values_of_fields ratio text (kv # fs) acc = Inr ev"
    using f ev by (simp add: kv)
  moreover have "map_of ev k = (case map_of (kv # fs) k of
                           None \<Rightarrow> map_of acc k
                         | Some vars \<Rightarrow> (case found_value ratio text k vars of None \<Rightarrow> map_of acc k | Some f \<Rightarrow> Some f))" for k
  proof (cases "k = k0")
    case True
    then show ?thesis using m[of k0] nk f
      by (simp add: kv found_value_def update_conv)
  next
    case False
    then show ?thesis using m[of k]
      by (auto simp: kv update_conv split: option.splits)
  qed
  ultimately show ?case by blast
qed

lemma attach_ranges_map:
  "distinct (map fst rr) \<Longrightarrow>
   map_of (attach_ranges rr ev) k =
     (case map_of ev k of
        None \<Rightarrow> None
      | Some r \<Rightarrow> Some (case map_of rr k of None \<Rightarrow> r | Some rg \<Rightarrow> r\<lparr>reference_range := Some rg\<rparr>))"
proof (induction rr arbitrary: ev)
  case Nil
  then show ?case by (simp split: option.splits)
next
  case (Cons krg rr)
  obtain k0 rg0 where krg: "krg = (k0, rg0)" by (cases krg) auto
  from Cons.prems have d: "distinct (map fst rr)" and nk: "map_of rr k0 = None"
    by (auto simp: krg map_of_eq_None_iff)
  show ?case
  proof (cases "map_of ev k0")
    case None
    then show ?thesis using Cons.IH[OF d, of ev] nk
      by (cases "k = k0") (auto simp: krg split: option.splits)
  next
    case (Some r0)
    then show ?thesis
      using Cons.IH[OF d, of "AList.update k0 (r0\<lparr>reference_range := Some rg0\<rparr>) ev"] nk
      by (cases "k = k0") (auto simp: krg update_conv split: option.splits)
  qed
qed

text \<open>
  C8. For every similarity function and input text, extract_cbc_values
  returns a map in which a key is present exactly when it is one of the four
  fields of FIELD_MAPPINGS and find_field_value reports a value for it; the
  entry is that result, carrying the field's reference range when
  extract_reference_ranges found one. A field with no extracted value has no
  entry and therefore no range.
\<close>

theorem extract_cbc_values_keys:
  "\<exists>ev rr. extract_cbc_values ratio text = Inr ev \<and> extract_reference_ranges text = Inr rr \<and>
     (\<forall>k. map_of ev k =
       (case map_of FIELD_MAPPINGS k of
          None \<Rightarrow> None
        | Some variations \<Rightarrow>
            (case find_field_value ratio text k variations of
               Inl e \<Rightarrow> None
             | Inr result \<Rightarrow>
                 (if value' result = None then None
                  else Some (case map_of rr k of
                               None \<Rightarrow> result
                             | Some ranges \<Rightarrow> result\<lparr>reference_range := Some ranges\<rparr>)))))"
proof -
  have "distinct (map fst FIELD_MAPPINGS)" by (simp add: FIELD_MAPPINGS_def)
  from values_of_fields_map[OF this, of ratio "text" "[]"] obtain ev where
    ev: "values_of_fields ratio text FIELD_MAPPINGS [] = Inr ev"
    and m0: "\<And>k. map_of ev k = (case map_of FIELD_MAPPINGS k of
                           None \<Rightarrow> map_of [] k
                         | Some vars \<Rightarrow> (case found_value ratio text k vars of None \<Rightarrow> map_of [] k | Some f \<Rightarrow> Some f))"
    by blast
  have m: "map_of ev k = (case map_of FIELD_MAPPINGS k of
                           None \<Rightarrow> None
                         | Some vars \<Rightarrow> found_value ratio text k vars)" for k
    unfolding m0[of k] by (simp split: option.splits)
  from extract_reference_ranges_total[of "text"] obtain rr where
    rr: "extract_reference_ranges text = Inr rr" "distinct (map fst rr)" by blast
  have "extract_cbc_values ratio text = Inr (attach_ranges rr ev)"
    by (simp add: extract_cbc_values_def ev rr)
  moreover have "map_of (attach_ranges rr ev) k =
       (case map_of FIELD_MAPPINGS k of
          None \<Rightarrow> None
        | Some variations \<Rightarrow>
            (case find_field_value ratio text k variations of
               Inl e \<Rightarrow> None
             | Inr result \<Rightarrow>
                 (if value' result = None then None
                  else Some (case map_of rr k of
                               None \<Rightarrow> result
                             | Some ranges \<Rightarrow> result\<lparr>reference_range := Some ranges\<rparr>))))" for k
    unfolding attach_ranges_map[OF rr(2)] m
    by (auto simp: found_value_def split: option.splits sum.splits)
  ultimately show ?thesis using rr(1) by blast
qed

section \<open>extract_patient_age\<close>

lemma pattern_items_mem:
  "(pat, c, m) \<in> set (pattern_items ps text) \<Longrightarrow> (pat, c) \<in> set ps \<and> m \<in> set (finditer pat None text)"
  by (auto simp: pattern_items_def)

lemma age_patterns_bind_all: "\<forall>(pat, c)\<in>set age_patterns. binds 1 pat \<and> 0 < c"
  by (simp add: age_patterns_def seqs_def)

lemma age_patterns_bind: "(pat, c) \<in> set age_patterns \<Longrightarrow> binds 1 pat \<and> 0 < c"
  using age_patterns_bind_all by blast

lemma int_group_error: "group m i = Some g \<Longrightarrow> int_group m i = Inl e \<Longrightarrow> e = ValueError"
  by (auto simp: int_group_def dest: py_int_error)

lemma age_candidate_total:
  assumes "item \<in> set (pattern_items age_patterns text)"
  shows "\<exists>c. age_candidate item = Inr c"
proof -
  obtain pat c m where item: "item = (pat, c, m)" by (cases item) auto
  from assms pattern_items_mem have "(pat, c) \<in> set age_patterns" "m \<in> set (finditer pat None text)"
    unfolding item by blast+
  with age_patterns_bind finditer_binds obtain g where g: "group m 1 = Some g" by blast
  show ?thesis
  proof (cases "int_group m 1")
    case (Inl e)
    with int_group_error[OF g] have "e = ValueError" by simp
    with Inl show ?thesis by (simp add: age_candidate_def item caught_def)
  next
    case (Inr a)
    then show ?thesis by (simp add: age_candidate_def item)
  qed
qed

lemma age_candidate_offer:
  "age_candidate (pat, c, m) = Inr (Some r) \<longleftrightarrow>
     (\<exists>a. int_group m 1 = Inr a \<and> 18 \<le> a \<and> a \<le> 120 \<and>
          r = \<lparr>value' = Some a, confidence = c, raw_text = whole m, pattern_used = Some pat\<rparr>)"
  by (auto simp: age_candidate_def caught_def split: sum.splits if_splits)

lemma age_candidates_accepted:
  "age_candidates text =
     concat (map (\<lambda>(pattern, conf, m).
                    case int_group m 1 of
                      Inl e \<Rightarrow> []
                    | Inr a \<Rightarrow> (if 18 \<le> a \<and> a \<le> 120
                                then [\<lparr>value' = Some a, confidence = conf, raw_text = whole m,
                                       pattern_used = Some pattern\<rparr>]
                                else []))
                 (pattern_items age_patterns text))"
  unfolding age_candidates_def offered_def
  by (rule arg_cong[where f = concat], rule map_cong)
     (auto simp: age_candidate_def caught_def split: sum.splits if_splits)

lemma age_candidates_range:
  assumes "r \<in> set (age_candidates text)"
  shows "0 < confidence r \<and> (\<exists>a. value' r = Some a \<and> 18 \<le> a \<and> a \<le> 120)"
proof -
  from assms obtain item where item: "item \<in> set (pattern_items age_patterns text)" "age_candidate item = Inr (Some r)"
    unfolding age_candidates_def using offered_mem by fastforce
  obtain pat c m where i: "item = (pat, c, m)" by (cases item) auto
  from item(1) pattern_items_mem age_patterns_bind have "0 < c" unfolding i by blast
  with item(2) show ?thesis unfolding i age_candidate_offer by auto
qed

lemma extract_patient_age_eq:
  "extract_patient_age text =
     Inr (case first_best confidence (age_candidates text) of None \<Rightarrow> not_found | Some c \<Rightarrow> c)"
proof -
  have tot: "\<forall>x\<in>set (pattern_items age_patterns text). \<exists>c. age_candidate x = Inr c"
    using age_candidate_total by blast
  have pos: "\<forall>c\<in>set (offered age_candidate (pattern_items age_patterns text)). confidence c > 0"
    using age_candidates_range unfolding age_candidates_def by blast
  show ?thesis
    unfolding extract_patient_age_def age_candidates_def by (rule scan_result[OF tot pos])
qed

lemma age_58: "map_sum id (\<lambda>r. (value' r, confidence r)) (extract_patient_age ''58 Years Male'') = Inr (Some 58, 95)"
  by code_simp

lemma age_5: "map_sum id (\<lambda>r. (value' r, confidence r)) (extract_patient_age ''5 Years Male'') = Inr (None, 0)"
  by code_simp

text \<open>
  C6. In extract_patient_age the accepted candidates are exactly the pattern
  matches whose parsed integer lies within [18, 120]; a match with an age out
  of range contributes nothing. The function returns the first accepted
  candidate, in scan order, whose confidence no accepted candidate exceeds,
  and the not-found result when none is accepted. On "58 Years Male" it
  returns value 58 with confidence 95, on "5 Years Male" an absent value with
  confidence 0.
\<close>

theorem extract_patient_age_accepts:
  "age_candidates text =
     concat (map (\<lambda>(pattern, conf, m).
                    case int_group m 1 of
                      Inl e \<Rightarrow> []
                    | Inr a \<Rightarrow> (if 18 \<le> a \<and> a \<le> 120
                                then [\<lparr>value' = Some a, confidence = conf, raw_text = whole m,
                                       pattern_used = Some pattern\<rparr>]
                                else []))
                 (pattern_items age_patterns text)) \<and>
   extract_patient_age text =
     Inr (case first_best confidence (age_candidates text) of None \<Rightarrow> not_found | Some c \<Rightarrow> c) \<and>
   (\<forall>r a. extract_patient_age text = Inr r \<and> value' r = Some a \<longrightarrow> 18 \<le> a \<and> a \<le> 120) \<and>
   map_sum id (\<lambda>r. (value' r, confidence r)) (extract_patient_age ''58 Years Male'') = Inr (Some 58, 95) \<and>
   map_sum id (\<lambda>r. (value' r, confidence r)) (extract_patient_age ''5 Years Male'') = Inr (None, 0)"
proof -
  have "18 \<le> a \<and> a \<le> 120" if "extract_patient_age text = Inr r" "value' r = Some a" for r a
  proof (cases "first_best confidence (age_candidates text)")
    case None
    with that show ?thesis by (auto simp: extract_patient_age_eq not_found_def)
  next
    case (Some c)
    with that have "r = c" by (simp add: extract_patient_age_eq)
    with first_best_Some[OF Some] have "r \<in> set (age_candidates text)" by simp
    from age_candidates_range[OF this] that(2) show ?thesis by simp
  qed
  then have r: "\<forall>r a. extract_patient_age text = Inr r \<and> value' r = Some a \<longrightarrow> 18 \<le> a \<and> a \<le> 120"
    by blast
  show ?thesis
    by (intro conjI) (rule age_candidates_accepted, rule extract_patient_age_eq, rule r, rule age_58, rule age_5)
qed

theorem extract_patient_age_accepts_witness:
  "\<exists>r. extract_patient_age ''58 Years Male'' = Inr r \<and> value' r = Some 58 \<and> (18::int) \<le> 58 \<and> (58::int) \<le> 120"
proof -
  from extract_patient_age_accepts[of "''58 Years Male''"]
  have "map_sum id (\<lambda>r. (value' r, confidence r)) (extract_patient_age ''58 Years Male'') = Inr (Some 58, 95)"
    by blast
  then show ?thesis by (cases "extract_patient_age ''58 Years Male''") auto
qed

section \<open>extract_test_date\<close>

lemma items_25:
  "map (\<lambda>(p, c, m). (c, group m 1, whole m)) (pattern_items date_patterns ''Collected: 03/15/25'') =
     [(95, Some ''03/15/25'', ''Collected: 03/15/25''), (70, Some ''03/15/25'', ''03/15/25'')]"
  by code_simp

lemma items_75:
  "map (\<lambda>(p, c, m). (c, group m 1, whole m)) (pattern_items date_patterns ''Collected: 03/15/75'') =
     [(95, Some ''03/15/75'', ''Collected: 03/15/75''), (70, Some ''03/15/75'', ''03/15/75'')]"
  by code_simp

lemma parse_25: "parse_date ''03/15/25'' = Inr (Some (2025, 3, 15))"
  by code_simp

lemma parse_75: "parse_date ''03/15/75'' = Inr (Some (1975, 3, 15))"
  by code_simp

lemma fmt_25: "strftime_Ymd (2025, 3, 15) = ''2025-03-15''"
  by code_simp

lemma fmt_75: "strftime_Ymd (1975, 3, 15) = ''1975-03-15''"
  by code_simp

lemma two_dates:
  assumes items: "map (\<lambda>(p, c, m). (c, group m 1, whole m)) (pattern_items date_patterns text) =
                    [(95, Some ds, w1), (70, Some ds, w2)]"
    and parse: "parse_date ds = Inr (Some (y, mo, d))"
  shows "map_sum id (\<lambda>r. (value' r, confidence r)) (extract_test_date current_year text) =
           Inr (if in_window current_year y then (Some (strftime_Ymd (y, mo, d)), 95) else (None, 0))"
proof -
  from items obtain p1 m1 p2 m2 where
    its: "pattern_items date_patterns text = [(p1, 95, m1), (p2, 70, m2)]"
    and g: "group m1 1 = Some ds" "group m2 1 = Some ds"
    by (auto simp: map_eq_Cons_conv)
  from g have g': "group m1 (Suc 0) = Some ds" "group m2 (Suc 0) = Some ds" by simp_all
  have c1: "date_candidate current_year (p1, 95, m1) =
              (if in_window current_year y
               then Inr (Some \<lparr>value' = Some (strftime_Ymd (y, mo, d)), confidence = 95,
                                raw_text = whole m1, pattern_used = Some p1\<rparr>)
               else Inr None)"
    unfolding date_candidate_def by (simp add: g' parse)
  have c2: "date_candidate current_year (p2, 70, m2) =
              (if in_window current_year y
               then Inr (Some \<lparr>value' = Some (strftime_Ymd (y, mo, d)), confidence = 70,
                                raw_text = whole m2, pattern_used = Some p2\<rparr>)
               else Inr None)"
    unfolding date_candidate_def by (simp add: g' parse)
  show ?thesis
    unfolding extract_test_date_def its
    by (simp add: c1 c2 keep_best_def best_or_def not_found_def)
qed

lemma digit_not_slash: "is_digit a \<Longrightarrow> a \<noteq> CHR ''/''"
  by (auto simp: is_digit_def code_def)

lemma expand_two_digits:
  assumes "list_all is_digit [m1, m2, d1, d2, a, b]"
  shows "expand_year [m1, m2, CHR ''/'', d1, d2, CHR ''/'', a, b] =
           Inr ([m1, m2, CHR ''/'', d1, d2, CHR ''/''] @
                str_nat (if dec [a, b] 0 < 50 then dec [a, b] 0 + 2000 else dec [a, b] 0 + 1900))"
proof -
  from assms have ns: "m1 \<noteq> CHR ''/''" "m2 \<noteq> CHR ''/''" "d1 \<noteq> CHR ''/''" "d2 \<noteq> CHR ''/''"
      "a \<noteq> CHR ''/''" "b \<noteq> CHR ''/''"
    by (simp_all add: digit_not_slash)
  have sp: "split_on (CHR ''/'') [m1, m2, CHR ''/'', d1, d2, CHR ''/'', a, b] = [[m1, m2], [d1, d2], [a, b]]"
    using ns by simp
  from assms have pi: "py_int [a, b] = Inr (int (dec [a, b] 0))"
    by (simp add: py_int_def)
  show ?thesis
    unfolding expand_year_def sp Let_def
    by (simp add: pi nat_add_distrib del: dec.simps str_nat.simps)
qed

text \<open>
  C1 (as amended). With the current year as a parameter: on "Collected:
  03/15/25" extract_test_date returns the value "2025-03-15" (confidence 95)
  when 2025 lies within [current_year - 10, current_year + 1], and an absent
  value otherwise; on "Collected: 03/15/75" it returns "1975-03-15" when 1975
  lies within that window, and an absent value otherwise. In a date of two
  digits, a slash, two digits, a slash and a two-digit year y, the year is
  expanded to 2000+y when y < 50 and to 1900+y otherwise.
\<close>

theorem extract_test_date_two_digit_year:
  "map_sum id (\<lambda>r. (value' r, confidence r)) (extract_test_date current_year ''Collected: 03/15/25'') =
     Inr (if in_window current_year 2025 then (Some ''2025-03-15'', 95) else (None, 0)) \<and>
   map_sum id (\<lambda>r. (value' r, confidence r)) (extract_test_date current_year ''Collected: 03/15/75'') =
     Inr (if in_window current_year 1975 then (Some ''1975-03-15'', 95) else (None, 0)) \<and>
   (list_all is_digit [m1, m2, d1, d2, a, b] \<longrightarrow>
      expand_year [m1, m2, CHR ''/'', d1, d2, CHR ''/'', a, b] =
        Inr ([m1, m2, CHR ''/'', d1, d2, CHR ''/''] @
             str_nat (if dec [a, b] 0 < 50 then dec [a, b] 0 + 2000 else dec [a, b] 0 + 1900)))"
  using two_dates[OF items_25 parse_25, of current_year] two_dates[OF items_75 parse_75, of current_year]
    expand_two_digits[of m1 m2 d1 d2 a b]
  unfolding fmt_25 fmt_75 by blast

theorem extract_test_date_two_digit_year_witness:
  "map_sum id (\<lambda>r. (value' r, confidence r)) (extract_test_date 2025 ''Collected: 03/15/25'') =
     Inr (Some ''2025-03-15'', 95) \<and>
   map_sum id (\<lambda>r. (value' r, confidence r)) (extract_test_date 1980 ''Collected: 03/15/75'') =
     Inr (Some ''1975-03-15'', 95) \<and>
   expand_year ''03/15/75'' = Inr ''03/15/1975''"
proof -
  have d: "list_all is_digit ''031575''"
    by (simp add: is_digit_def code_def)
  have s: "str_nat (if dec ''75'' 0 < 50 then dec ''75'' 0 + 2000 else dec ''75'' 0 + 1900) = ''1975''"
    by code_simp
  from extract_test_date_two_digit_year[of 2025 "CHR ''0''" "CHR ''3''" "CHR ''1''" "CHR ''5''" "CHR ''7''" "CHR ''5''"] d s
  have 1: "map_sum id (\<lambda>r. (value' r, confidence r)) (extract_test_date 2025 ''Collected: 03/15/25'') =
     Inr (Some ''2025-03-15'', 95)" and 3: "expand_year ''03/15/75'' = Inr ''03/15/1975''"
    by (simp_all add: in_window_def del: dec.simps str_nat.simps)
  from extract_test_date_two_digit_year[of 1980]
  have 2: "map_sum id (\<lambda>r. (value' r, confidence r)) (extract_test_date 1980 ''Collected: 03/15/75'') =
     Inr (Some ''1975-03-15'', 95)"
    by (simp add: in_window_def)
  from 1 2 3 show ?thesis by blast
qed

theorem extract_test_date_counterexample:
  "map_sum id value' (extract_test_date 2025 ''Collected: 03/15/75'') = Inr None"
  by code_simp

section \<open>Dependence on the clock\<close>








section \<open>extract_reference_ranges: which variant wins\<close>

text \<open>
  C3. The claim: once one variant of a field yields a valid range, matches
  of later variants do not change the returned range. Evaluated on
  "poly (1-2) neutrophils (3-4)": the first variant of the field neutrophils,
  "neutrophils", yields the valid range (3, 4); the last variant, "poly",
  also matches, and the range returned for the field is its range (1, 2).
\<close>

theorem extract_reference_ranges_later_variant:
  "first_range (finditer (variation_pattern ''neutrophils'') None ''poly (1-2) neutrophils (3-4)'') =
     Inr (Some (3, 4)) \<and>
   extract_reference_ranges ''poly (1-2) neutrophils (3-4)'' = Inr [(''neutrophils'', (1, 2))]"
  by code_simp

section \<open>Commas\<close>

lemma space_not_comma: "is_space c \<Longrightarrow> c \<noteq> CHR '',''"
  by (auto simp: is_space_def code_def)

lemma lstrip_filter:
  "dropWhile is_space (remove_commas (dropWhile is_space s)) = dropWhile is_space (remove_commas s)"
  by (induction s) (auto simp: remove_commas_def space_not_comma)

lemma rev_remove_commas: "rev (remove_commas s) = remove_commas (rev s)"
  by (simp add: remove_commas_def rev_filter)

lemma rstrip_filter:
  "rev (dropWhile is_space (rev (remove_commas (rev (dropWhile is_space (rev s)))))) =
   rev (dropWhile is_space (rev (remove_commas s)))"
  using lstrip_filter[of "rev s"] by (simp add: rev_remove_commas)

lemma rstrip_Cons:
  "rev (dropWhile P (rev (c # cs))) =
     (if \<forall>x\<in>set cs. P x then (if P c then [] else [c]) else c # rev (dropWhile P (rev cs)))"
  by (simp add: dropWhile_append)

lemma strip_commute:
  "dropWhile P (rev (dropWhile P (rev s))) = rev (dropWhile P (rev (dropWhile P s)))"
proof (induction s)
  case Nil
  then show ?case by simp
next
  case (Cons c cs)
  show ?case
  proof (cases "\<forall>x\<in>set cs. P x")
    case True
    then have d: "dropWhile P cs = []" by simp
    show ?thesis using True by (simp add: rstrip_Cons d del: rev.simps)
  next
    case False
    with Cons show ?thesis by (auto simp: rstrip_Cons simp del: rev.simps)
  qed
qed

lemma strip_remove_commas:
  "py_strip (remove_commas (py_strip t)) = py_strip (remove_commas t)"
proof -
  let ?l = "dropWhile is_space" and ?r = "\<lambda>s. rev (dropWhile is_space (rev s))"
  have "py_strip (remove_commas (py_strip t)) = ?r (?l (remove_commas (?r (?l t))))"
    by (simp add: py_strip_def)
  also have "\<dots> = ?l (?r (remove_commas (?r (?l t))))"
    by (simp add: strip_commute)
  also have "\<dots> = ?l (?r (remove_commas (?l t)))"
    by (simp only: rstrip_filter)
  also have "\<dots> = ?r (?l (remove_commas (?l t)))"
    by (simp add: strip_commute)
  also have "\<dots> = ?r (?l (remove_commas t))"
    by (simp only: lstrip_filter)
  finally show ?thesis by (simp add: py_strip_def)
qed

lemma strip_id:
  "s = [] \<or> (\<not> is_space (hd s) \<and> \<not> is_space (last s)) \<Longrightarrow> py_strip s = s"
proof (cases "s = []")
  case True
  then show ?thesis by (simp add: py_strip_def)
next
  case False
  assume "s = [] \<or> (\<not> is_space (hd s) \<and> \<not> is_space (last s))"
  with False have h: "\<not> is_space (hd s)" "\<not> is_space (last s)" by simp_all
  from h(1) False have 1: "dropWhile is_space s = s" by (cases s) simp_all
  from h(2) False have 2: "dropWhile is_space (rev s) = rev s"
    by (cases "rev s") (simp_all add: last_rev[symmetric])
  show ?thesis by (simp add: py_strip_def 1 2)
qed

lemma remove_commas_idem: "remove_commas (remove_commas s) = remove_commas s"
  by (simp add: remove_commas_def)

lemma clean_remove_commas:
  assumes "remove_commas (py_strip text) = [] \<or>
           (\<not> is_space (hd (remove_commas (py_strip text))) \<and> \<not> is_space (last (remove_commas (py_strip text))))"
  shows "clean (remove_commas text) = clean text"
proof -
  have "py_strip (remove_commas text) = py_strip (remove_commas (py_strip text))"
    by (simp add: strip_remove_commas)
  also have "\<dots> = remove_commas (py_strip text)"
    using assms by (rule strip_id)
  finally show ?thesis by (simp add: clean_def remove_commas_idem)
qed

lemma decimal_comma: "parse_value_with_unit ''4,2'' = Inr (Some 42000, Some unit_assumed)"
  by code_simp

text \<open>
  C10 (as amended). parse_value_with_unit strips the text first and deletes
  every comma afterwards. For every text t such that deleting the commas of
  the stripped text leaves no whitespace at either end,
  parse_value_with_unit(t) equals parse_value_with_unit(t with all commas
  deleted). All commas are deleted, not only thousands separators: "4,2" is
  read as 42 (and returned as 42000 in the assumed unit).
\<close>

theorem parse_value_with_unit_commas:
  "(remove_commas (py_strip text) = [] \<or>
      (\<not> is_space (hd (remove_commas (py_strip text))) \<and>
       \<not> is_space (last (remove_commas (py_strip text)))) \<longrightarrow>
     parse_value_with_unit text = parse_value_with_unit (remove_commas text)) \<and>
   parse_value_with_unit ''4,2'' = Inr (Some 42000, Some unit_assumed)"
  using clean_remove_commas[of "text"] decimal_comma
  by (simp add: parse_value_with_unit_def)

theorem parse_value_with_unit_commas_witness:
  "parse_value_with_unit ''1,800 /ul'' = parse_value_with_unit (remove_commas ''1,800 /ul'')"
proof -
  have "remove_commas (py_strip ''1,800 /ul'') = ''1800 /ul''"
    by code_simp
  then have "\<not> is_space (hd (remove_commas (py_strip ''1,800 /ul''))) \<and>
       \<not> is_space (last (remove_commas (py_strip ''1,800 /ul'')))"
    by (simp add: is_space_def code_def)
  with parse_value_with_unit_commas[of "''1,800 /ul''"] show ?thesis by blast
qed

theorem parse_value_with_unit_commas_counterexample:
  "parse_value_with_unit '', 5'' = Inr (None, None) \<and>
   parse_value_with_unit (remove_commas '', 5'') = Inr (Some 5000, Some unit_assumed)"
  by code_simp

end
